theory Spec2Isabelle
  imports Main
begin

section \<open>Values of the toggle hook\<close>

text \<open>
  The reducer state of \<^verbatim>\<open>src/exercise/06.js\<close> is a JavaScript object with a boolean
  property \<^verbatim>\<open>on\<close>. JavaScript objects are open, so the model keeps every further
  own property in \<open>rest\<close>: the object literal \<^verbatim>\<open>{on: x}\<close> has an empty \<open>rest\<close>, the
  spread \<^verbatim>\<open>{...state, on}\<close> keeps the \<open>rest\<close> of \<^verbatim>\<open>state\<close>. A value of type
  \<open>'v state option\<close> is a JavaScript value that is either such an object or
  \<^verbatim>\<open>undefined\<close>/\<^verbatim>\<open>null\<close> (\<open>None\<close>).
\<close>

record 'v state =
  on :: bool
  rest :: "string \<rightharpoonup> 'v"

text \<open>
  An action is \<^verbatim>\<open>{type, initialState}\<close>; \<^verbatim>\<open>toggle\<close> builds \<^verbatim>\<open>{type: 'toggle'}\<close>,
  whose \<^verbatim>\<open>initialState\<close> is \<^verbatim>\<open>undefined\<close>.
\<close>

record 'v action =
  type :: string
  initialState :: "'v state option"

text \<open>
  Exceptions: \<^verbatim>\<open>new Error(message)\<close> thrown by the reducer, and the \<^verbatim>\<open>TypeError\<close> that
  JavaScript raises when a property of \<^verbatim>\<open>undefined\<close> is read.
\<close>

datatype error = Error string | TypeError

type_synonym 'v reducer = "'v state option \<Rightarrow> 'v action \<Rightarrow> error + 'v state option"

text \<open>The table \<^verbatim>\<open>actionTypes\<close> (lines 14-17).\<close>

definition actionTypes_toggle :: string where
  "actionTypes_toggle = ''toggle''"

definition actionTypes_reset :: string where
  "actionTypes_reset = ''reset''"

section \<open>The transition function\<close>

text \<open>
  \<^verbatim>\<open>toggleReducer\<close> (lines 62-74). The \<^verbatim>\<open>switch\<close> compares \<^verbatim>\<open>type\<close> with the two
  action types in order; the \<^verbatim>\<open>toggle\<close> case returns the fresh object
  \<^verbatim>\<open>{on: !state.on}\<close>, the \<^verbatim>\<open>reset\<close> case returns the action's \<^verbatim>\<open>initialState\<close> as
  it is, and the default case throws.
\<close>

definition toggleReducer :: "'v reducer" where
  "toggleReducer st a =
     (if type a = actionTypes_toggle then
        (case st of
           None \<Rightarrow> Inl TypeError
         | Some s \<Rightarrow> Inr (Some \<lparr>on = \<not> on s, rest = Map.empty\<rparr>))
      else if type a = actionTypes_reset then Inr (initialState a)
      else Inl (Error (''Unsupported type: '' @ type a)))"

section \<open>Development diagnostics\<close>

text \<open>
  The messages passed to \<^verbatim>\<open>warning\<close>, by what they say: lines 27-30 (an uncontrolled
  input becomes controlled), lines 34-37 (a controlled input becomes uncontrolled), and
  lines 54-57 (a control prop, named in the message, without an \<^verbatim>\<open>onChange\<close> handler).
\<close>

datatype advisory =
  UncontrolledToControlled
| ControlledToUncontrolled
| ReadOnlyField string

text \<open>
  \<^verbatim>\<open>warning(condition, message)\<close> is the function of the npm package \<^verbatim>\<open>warning\<close>
  imported at line 6; the package is not part of the repository. Its contract: the message
  is logged when the condition is falsy, and nothing happens when it is truthy. The
  model returns the messages logged.
\<close>

definition warning :: "bool \<Rightarrow> advisory \<Rightarrow> advisory list" where
  "warning condition message = (if condition then [] else [message])"

text \<open>
  The hooks of React that the file uses, over explicit memory cells; a cell is \<open>None\<close>
  while the component mounts. \<^verbatim>\<open>useRef(v)\<close> gives \<^verbatim>\<open>v\<close> on the mount and the stored
  value afterwards (the file never assigns to \<^verbatim>\<open>current\<close>). \<^verbatim>\<open>useEffect(f, deps)\<close> runs
  \<^verbatim>\<open>f\<close> after the mount and after every render whose dependencies differ from those of
  the render before.
\<close>

definition useRef :: "'a option \<Rightarrow> 'a \<Rightarrow> 'a" where
  "useRef cell initialValue = (case cell of None \<Rightarrow> initialValue | Some current \<Rightarrow> current)"

definition useEffect :: "'d option \<Rightarrow> 'd \<Rightarrow> bool" where
  "useEffect cell deps = (case cell of None \<Rightarrow> True | Some prevDeps \<Rightarrow> prevDeps \<noteq> deps)"

text \<open>
  \<^verbatim>\<open>useControlledSwitchWarning\<close> (lines 19-40). Its cells are the ref holding
  \<^verbatim>\<open>wasControlled\<close> and the dependencies of its effect. The result is the cells after the
  render and the messages its effect logs.
\<close>

record switch_cells =
  wasControlled_ref :: bool
  switch_deps :: "bool \<times> bool"

definition useControlledSwitchWarning ::
  "switch_cells option \<Rightarrow> 'a option \<Rightarrow> switch_cells \<times> advisory list" where
  "useControlledSwitchWarning cells controlledPropValue =
     (let isControlled = (controlledPropValue \<noteq> None);
          wasControlled = useRef (map_option wasControlled_ref cells) isControlled;
          deps = (wasControlled, isControlled)
      in (\<lparr>wasControlled_ref = wasControlled, switch_deps = deps\<rparr>,
          if useEffect (map_option switch_deps cells) deps
          then warning (\<not> (isControlled \<and> \<not> wasControlled)) UncontrolledToControlled @
               warning (\<not> (\<not> isControlled \<and> wasControlled)) ControlledToUncontrolled
          else []))"

text \<open>
  \<^verbatim>\<open>useReadOnlyWarning\<close> (lines 42-60). Its only cell holds the dependencies of its
  effect. The condition handed to \<^verbatim>\<open>warning\<close> is the one of line 53, as written.
\<close>

definition useReadOnlyWarning ::
  "(bool \<times> bool \<times> bool \<times> string) option \<Rightarrow> 'a option \<Rightarrow> string \<Rightarrow> 'h option \<Rightarrow> bool
     \<Rightarrow> (bool \<times> bool \<times> bool \<times> string) \<times> advisory list" where
  "useReadOnlyWarning cell controlPropValue controlPropName onChange' readOnly' =
     (let isControlled = (controlPropValue \<noteq> None);
          hasOnChange = (onChange' \<noteq> None);
          deps = (isControlled, hasOnChange, readOnly', controlPropName)
      in (deps,
          if useEffect cell deps
          then warning (isControlled \<and> \<not> hasOnChange \<and> \<not> readOnly') (ReadOnlyField controlPropName)
          else []))"

text \<open>
  A lifetime of \<^verbatim>\<open>useControlledSwitchWarning\<close>: the control prop observed at each render,
  the first being the mount; the result is everything logged.
\<close>

fun observations :: "switch_cells option \<Rightarrow> 'a option list \<Rightarrow> advisory list" where
  "observations cells [] = []"
| "observations cells (v # vs) =
     snd (useControlledSwitchWarning cells v) @
     observations (Some (fst (useControlledSwitchWarning cells v))) vs"

section \<open>The state arbiter\<close>

text \<open>
  \<^verbatim>\<open>React.useReducer(reducer, initialState)\<close>: the state is the initial one on the mount;
  afterwards it is the stored state with the dispatched actions, queued since the last
  render, applied in order by the reducer of this render. An exception of the reducer is
  an exception of the render. \<^verbatim>\<open>dispatch(action)\<close> queues the action.
\<close>

fun reduce_queue :: "'v reducer \<Rightarrow> 'v state option \<Rightarrow> 'v action list \<Rightarrow> error + 'v state option" where
  "reduce_queue r st [] = Inr st"
| "reduce_queue r st (a # as) =
     (case r st a of Inl e \<Rightarrow> Inl e | Inr st' \<Rightarrow> reduce_queue r st' as)"

text \<open>
  The memory of one component instance: the ref of line 86, the state and the queue of
  \<^verbatim>\<open>useReducer\<close>, and the cells of the two diagnostic hooks (\<open>None\<close> in a production
  build, where lines 99-104 skip them; \<^verbatim>\<open>NODE_ENV\<close> is fixed for the lifetime).
\<close>

record 'v fiber =
  initialState_ref :: "'v state"
  memoizedState :: "'v state option"
  queue :: "'v action list"
  switch_warning :: "switch_cells option"
  readOnly_warning :: "(bool \<times> bool \<times> bool \<times> string) option"

definition useReducer :: "'v fiber option \<Rightarrow> 'v reducer \<Rightarrow> 'v state \<Rightarrow> error + 'v state option" where
  "useReducer cell r initialArg =
     (case cell of
        None \<Rightarrow> Inr (Some initialArg)
      | Some f \<Rightarrow> reduce_queue r (memoizedState f) (queue f))"

definition dispatch :: "'v action \<Rightarrow> 'v fiber \<Rightarrow> 'v fiber" where
  "dispatch a f = f\<lparr>queue := queue f @ [a]\<rparr>"

text \<open>
  The argument of \<^verbatim>\<open>useToggle\<close> (lines 76-85); \<open>None\<close> is a property that is absent
  or \<^verbatim>\<open>undefined\<close>, for which the defaults of lines 77, 78 and 84 apply. For \<^verbatim>\<open>on\<close>
  and \<^verbatim>\<open>onChange\<close>, which the source tests with \<^verbatim>\<open>!= null\<close>, \<^verbatim>\<open>!!\<close> and \<^verbatim>\<open>?.\<close>,
  \<open>None\<close> is \<^verbatim>\<open>null\<close> as well. The property \<^verbatim>\<open>on\<close> is named \<open>controlledOn\<close>, its
  alias in the source. \<open>'h\<close> is the type of the \<^verbatim>\<open>onChange\<close> callbacks.
\<close>

record ('v, 'h) options =
  initialOn :: "bool option"
  reducer :: "'v reducer option"
  onChange :: "'h option"
  controlledOn :: "bool option"
  readOnly :: "bool option"

text \<open>
  What the closures returned by one render capture: the variables \<^verbatim>\<open>state\<close>, \<^verbatim>\<open>on\<close>,
  \<^verbatim>\<open>onIsControlled\<close>, \<^verbatim>\<open>onChange\<close>, \<^verbatim>\<open>reducer\<close> and \<^verbatim>\<open>initialState\<close> of that render.
  \<open>s_on\<close> is also the \<^verbatim>\<open>on\<close> that the hook returns (line 156).
\<close>

record ('v, 'h) scope =
  s_state :: "'v state option"
  s_on :: bool
  s_onIsControlled :: bool
  s_onChange :: "'h option"
  s_reducer :: "'v reducer"
  s_initialState :: "'v state"

text \<open>
  One render of \<^verbatim>\<open>useToggle\<close> (lines 76-104). \<open>dev\<close> is
  \<^verbatim>\<open>process.env.NODE_ENV !== 'production'\<close>. The result is the memory after the render,
  the scope of its closures and the messages logged by the effects of this render;
  \<open>Inl\<close> is an exception thrown while rendering (by the reducer, or by \<^verbatim>\<open>state.on\<close> on an
  undefined state).
\<close>

definition read_on :: "bool option \<Rightarrow> 'v state option \<Rightarrow> error + bool" where
  "read_on controlled st =
     (case controlled of
        Some b \<Rightarrow> Inr b
      | None \<Rightarrow> (case st of None \<Rightarrow> Inl TypeError | Some s \<Rightarrow> Inr (on s)))"

definition useToggle ::
  "bool \<Rightarrow> ('v, 'h) options \<Rightarrow> 'v fiber option
     \<Rightarrow> error + ('v fiber \<times> ('v, 'h) scope \<times> advisory list)" where
  "useToggle dev opts cell =
     (let initialOn' = (case initialOn opts of None \<Rightarrow> False | Some b \<Rightarrow> b);
          reducer' = (case reducer opts of None \<Rightarrow> toggleReducer | Some r \<Rightarrow> r);
          readOnly' = (case readOnly opts of None \<Rightarrow> False | Some b \<Rightarrow> b);
          initialState' =
            useRef (map_option initialState_ref cell) \<lparr>on = initialOn', rest = Map.empty\<rparr>
      in case useReducer cell reducer' initialState' of
           Inl e \<Rightarrow> Inl e
         | Inr state' \<Rightarrow>
             (case read_on (controlledOn opts) state' of
                Inl e \<Rightarrow> Inl e
              | Inr on' \<Rightarrow>
                  (let sw = useControlledSwitchWarning
                              (Option.bind cell switch_warning) (controlledOn opts);
                       ro = useReadOnlyWarning
                              (Option.bind cell readOnly_warning) (controlledOn opts) ''on''
                              (onChange opts) readOnly'
                   in Inr (\<lparr>initialState_ref = initialState',
                             memoizedState = state',
                             queue = [],
                             switch_warning = (if dev then Some (fst sw) else None),
                             readOnly_warning = (if dev then Some (fst ro) else None)\<rparr>,
                           \<lparr>s_state = state',
                             s_on = on',
                             s_onIsControlled = (controlledOn opts \<noteq> None),
                             s_onChange = onChange opts,
                             s_reducer = reducer',
                             s_initialState = initialState'\<rparr>,
                           (if dev then snd sw @ snd ro else [])))))"

text \<open>
  The spread \<^verbatim>\<open>{...state, on}\<close> of line 117; spreading \<^verbatim>\<open>undefined\<close> adds no property.
\<close>

definition spread_on :: "'v state option \<Rightarrow> bool \<Rightarrow> 'v state" where
  "spread_on st b =
     (case st of None \<Rightarrow> \<lparr>on = b, rest = Map.empty\<rparr> | Some s \<Rightarrow> s\<lparr>on := b\<rparr>)"

text \<open>
  \<^verbatim>\<open>dispatchWithOnChange\<close> (lines 115-118) acts on the memory of the instance and on the
  list of the calls of \<^verbatim>\<open>onChange\<close> made so far (callback, first argument, second
  argument). The optional call \<^verbatim>\<open>onChange?.(...)\<close> evaluates its arguments only when
  \<^verbatim>\<open>onChange\<close> is there. The first component of the result is the exception thrown, if
  any: the reducer can throw after \<^verbatim>\<open>dispatch\<close> has queued the action.
\<close>

type_synonym ('v, 'h) call = "'h \<times> 'v state option \<times> 'v action"

definition dispatchWithOnChange ::
  "('v, 'h) scope \<Rightarrow> 'v action \<Rightarrow> 'v fiber \<times> ('v, 'h) call list
     \<Rightarrow> error option \<times> 'v fiber \<times> ('v, 'h) call list" where
  "dispatchWithOnChange sc a w =
     (let f = (if \<not> s_onIsControlled sc then dispatch a (fst w) else fst w)
      in case s_onChange sc of
           None \<Rightarrow> (None, f, snd w)
         | Some h \<Rightarrow>
             (case s_reducer sc (Some (spread_on (s_state sc) (s_on sc))) a of
                Inl e \<Rightarrow> (Some e, f, snd w)
              | Inr suggested \<Rightarrow> (None, f, snd w @ [(h, suggested, a)])))"

text \<open>The actions built by \<^verbatim>\<open>toggle\<close> (line 136) and \<^verbatim>\<open>reset\<close> (lines 137-138).\<close>

definition toggle_action :: "'v action" where
  "toggle_action = \<lparr>type = actionTypes_toggle, initialState = None\<rparr>"

definition reset_action :: "('v, 'h) scope \<Rightarrow> 'v action" where
  "reset_action sc = \<lparr>type = actionTypes_reset, initialState = Some (s_initialState sc)\<rparr>"

definition toggle ::
  "('v, 'h) scope \<Rightarrow> 'v fiber \<times> ('v, 'h) call list \<Rightarrow> error option \<times> 'v fiber \<times> ('v, 'h) call list" where
  "toggle sc w = dispatchWithOnChange sc toggle_action w"

definition reset ::
  "('v, 'h) scope \<Rightarrow> 'v fiber \<times> ('v, 'h) call list \<Rightarrow> error option \<times> 'v fiber \<times> ('v, 'h) call list" where
  "reset sc w = dispatchWithOnChange sc (reset_action sc) w"

section \<open>Lifetimes of an instance\<close>

text \<open>
  An instance is mounted by a first render and then sees renders (each with the options
  of that render) and calls of the \<^verbatim>\<open>toggle\<close> and \<^verbatim>\<open>reset\<close> returned by its latest render.
  A lifetime stops at the first exception.
\<close>

record ('v, 'h) component =
  fiber :: "'v fiber"
  scope :: "('v, 'h) scope"
  calls :: "('v, 'h) call list"
  console :: "advisory list"

datatype ('v, 'h) event = Render "('v, 'h) options" | Toggle | Reset

definition mount :: "bool \<Rightarrow> ('v, 'h) options \<Rightarrow> error + ('v, 'h) component" where
  "mount dev opts =
     (case useToggle dev opts None of
        Inl e \<Rightarrow> Inl e
      | Inr (f, sc, logged) \<Rightarrow> Inr \<lparr>fiber = f, scope = sc, calls = [], console = logged\<rparr>)"

definition called ::
  "('v, 'h) component \<Rightarrow> error option \<times> 'v fiber \<times> ('v, 'h) call list \<Rightarrow> error + ('v, 'h) component" where
  "called inst r =
     (case fst r of
        Some e \<Rightarrow> Inl e
      | None \<Rightarrow> Inr (inst\<lparr>fiber := fst (snd r), calls := snd (snd r)\<rparr>))"

fun step :: "bool \<Rightarrow> ('v, 'h) component \<Rightarrow> ('v, 'h) event \<Rightarrow> error + ('v, 'h) component" where
  "step dev inst (Render opts) =
     (case useToggle dev opts (Some (fiber inst)) of
        Inl e \<Rightarrow> Inl e
      | Inr (f, sc, logged) \<Rightarrow>
          Inr (inst\<lparr>fiber := f, scope := sc, console := console inst @ logged\<rparr>))"
| "step dev inst Toggle = called inst (toggle (scope inst) (fiber inst, calls inst))"
| "step dev inst Reset = called inst (reset (scope inst) (fiber inst, calls inst))"

fun run :: "bool \<Rightarrow> ('v, 'h) component \<Rightarrow> ('v, 'h) event list \<Rightarrow> error + ('v, 'h) component" where
  "run dev inst [] = Inr inst"
| "run dev inst (ev # evs) =
     (case step dev inst ev of Inl e \<Rightarrow> Inl e | Inr inst' \<Rightarrow> run dev inst' evs)"

definition lifetime ::
  "bool \<Rightarrow> ('v, 'h) options \<Rightarrow> ('v, 'h) event list \<Rightarrow> error + ('v, 'h) component" where
  "lifetime dev opts evs =
     (case mount dev opts of Inl e \<Rightarrow> Inl e | Inr inst \<Rightarrow> run dev inst evs)"

section \<open>Vocabulary for statements about lifetimes\<close>

text \<open>The object \<^verbatim>\<open>{on: initialOn}\<close> of line 86, with the default of line 77.\<close>

definition initial_state :: "('v, 'h) options \<Rightarrow> 'v state" where
  "initial_state opts =
     \<lparr>on = (case initialOn opts of None \<Rightarrow> False | Some b \<Rightarrow> b), rest = Map.empty\<rparr>"

text \<open>
  Options of a self-owned instance, and of an externally-owned one, both with the
  built-in transition function; \<open>renders P\<close> holds of an event unless it is a render
  whose options fail \<open>P\<close>.
\<close>

definition self_owned :: "('v, 'h) options \<Rightarrow> bool" where
  "self_owned opts = (controlledOn opts = None \<and> reducer opts = None)"

definition externally_owned :: "('v, 'h) options \<Rightarrow> bool" where
  "externally_owned opts = (controlledOn opts \<noteq> None \<and> reducer opts = None)"

fun renders :: "(('v, 'h) options \<Rightarrow> bool) \<Rightarrow> ('v, 'h) event \<Rightarrow> bool" where
  "renders P (Render opts) = P opts"
| "renders P Toggle = True"
| "renders P Reset = True"

fun toggles :: "('v, 'h) event list \<Rightarrow> nat" where
  "toggles [] = 0"
| "toggles (Toggle # evs) = Suc (toggles evs)"
| "toggles (Render opts # evs) = toggles evs"
| "toggles (Reset # evs) = toggles evs"

fun resets :: "('v, 'h) event list \<Rightarrow> nat" where
  "resets [] = 0"
| "resets (Reset # evs) = Suc (resets evs)"
| "resets (Render opts # evs) = resets evs"
| "resets (Toggle # evs) = resets evs"

text \<open>The options of the latest render of a lifetime.\<close>

fun latest :: "('v, 'h) options \<Rightarrow> ('v, 'h) event list \<Rightarrow> ('v, 'h) options" where
  "latest opts [] = opts"
| "latest opts (Render opts' # evs) = latest opts' evs"
| "latest opts (Toggle # evs) = latest opts evs"
| "latest opts (Reset # evs) = latest opts evs"

text \<open>
  What a lifetime shows: the \<^verbatim>\<open>on\<close> returned by its latest render, and the state stored
  by \<^verbatim>\<open>useReducer\<close>.
\<close>

definition reported :: "error + ('v, 'h) component \<Rightarrow> error + bool" where
  "reported r = (case r of Inl e \<Rightarrow> Inl e | Inr inst \<Rightarrow> Inr (s_on (scope inst)))"

definition committed :: "error + ('v, 'h) component \<Rightarrow> error + 'v state option" where
  "committed r = (case r of Inl e \<Rightarrow> Inl e | Inr inst \<Rightarrow> Inr (memoizedState (fiber inst)))"

text \<open>
  The state that the next render with the built-in transition function will store: the
  stored state with the queued actions applied.
\<close>

definition pending :: "'v fiber \<Rightarrow> error + 'v state option" where
  "pending f = reduce_queue toggleReducer (memoizedState f) (queue f)"

text \<open>
  The invariant of a self-owned lifetime with the built-in transition function: the
  pending state is \<open>st\<close>, and the ref and the closures hold the initial state \<open>init\<close>.
\<close>

definition settled :: "'v state \<Rightarrow> 'v state \<Rightarrow> ('v, 'h) component \<Rightarrow> bool" where
  "settled init st inst =
     (pending (fiber inst) = Inr (Some st) \<and>
      initialState_ref (fiber inst) = init \<and>
      s_initialState (scope inst) = init \<and>
      \<not> s_onIsControlled (scope inst) \<and>
      s_reducer (scope inst) = toggleReducer)"

text \<open>The pending state of such a lifetime, event by event.\<close>

fun after :: "'v state \<Rightarrow> 'v state \<Rightarrow> ('v, 'h) event list \<Rightarrow> 'v state" where
  "after init st [] = st"
| "after init st (Render opts # evs) = after init st evs"
| "after init st (Toggle # evs) = after init \<lparr>on = \<not> on st, rest = Map.empty\<rparr> evs"
| "after init st (Reset # evs) = after init init evs"

text \<open>
  The invariant of an externally-owned lifetime with the built-in transition function:
  the stored state is the initial one, nothing is queued, and the closures report the
  \<^verbatim>\<open>on\<close> of the options \<open>opts\<close> of the latest render.
\<close>

definition standby :: "'v state \<Rightarrow> ('v, 'h) options \<Rightarrow> ('v, 'h) component \<Rightarrow> bool" where
  "standby init opts inst =
     (memoizedState (fiber inst) = Some init \<and>
      queue (fiber inst) = [] \<and>
      initialState_ref (fiber inst) = init \<and>
      s_initialState (scope inst) = init \<and>
      s_onIsControlled (scope inst) \<and>
      s_reducer (scope inst) = toggleReducer \<and>
      controlledOn opts = Some (s_on (scope inst)))"

text \<open>
  What a lifetime computes and returns apart from the diagnostics: the ref, the stored
  state and the queue of the instance, the variables of its latest render (with the
  \<^verbatim>\<open>on\<close> it returns), and the calls of \<^verbatim>\<open>onChange\<close> with their arguments; or the
  exception thrown. Two option objects are the same but for \<^verbatim>\<open>readOnly\<close>, and two
  events are the same intent, when they agree on everything else.
\<close>

definition core :: "'v fiber \<Rightarrow> 'v state \<times> 'v state option \<times> 'v action list" where
  "core f = (initialState_ref f, memoizedState f, queue f)"

definition returned ::
  "('v, 'h) component
     \<Rightarrow> ('v state \<times> 'v state option \<times> 'v action list) \<times> ('v, 'h) scope \<times> ('v, 'h) call list" where
  "returned inst = (core (fiber inst), scope inst, calls inst)"

definition outcome ::
  "error + ('v, 'h) component
     \<Rightarrow> error + (('v state \<times> 'v state option \<times> 'v action list) \<times> ('v, 'h) scope \<times> ('v, 'h) call list)" where
  "outcome r = (case r of Inl e \<Rightarrow> Inl e | Inr inst \<Rightarrow> Inr (returned inst))"

definition same_but_readOnly :: "('v, 'h) options \<Rightarrow> ('v, 'h) options \<Rightarrow> bool" where
  "same_but_readOnly opts1 opts2 =
     (initialOn opts1 = initialOn opts2 \<and> reducer opts1 = reducer opts2 \<and>
      onChange opts1 = onChange opts2 \<and> controlledOn opts1 = controlledOn opts2)"

fun same_intents :: "('v, 'h) event \<Rightarrow> ('v, 'h) event \<Rightarrow> bool" where
  "same_intents (Render opts1) (Render opts2) = same_but_readOnly opts1 opts2"
| "same_intents Toggle Toggle = True"
| "same_intents Reset Reset = True"
| "same_intents _ _ = False"

definition advisories :: "error + ('v, 'h) component \<Rightarrow> error + advisory list" where
  "advisories r = (case r of Inl e \<Rightarrow> Inl e | Inr inst \<Rightarrow> Inr (console inst))"

text \<open>
  For the console of an instance: the messages of the mode-change check, the control
  props that a lifetime shows to the hooks after the mount, options that leave the
  transition function to its default, and the invariant of lifetimes with such options in
  either mode (the pending state is defined, the closures hold the built-in function).
\<close>

fun is_mode_change :: "advisory \<Rightarrow> bool" where
  "is_mode_change UncontrolledToControlled = True"
| "is_mode_change ControlledToUncontrolled = True"
| "is_mode_change (ReadOnlyField name) = False"

fun observed :: "('v, 'h) event list \<Rightarrow> bool option list" where
  "observed [] = []"
| "observed (Render opts # evs) = controlledOn opts # observed evs"
| "observed (Toggle # evs) = observed evs"
| "observed (Reset # evs) = observed evs"

definition built_in :: "('v, 'h) options \<Rightarrow> bool" where
  "built_in opts = (reducer opts = None)"

definition alive :: "('v, 'h) component \<Rightarrow> bool" where
  "alive inst =
     ((case pending (fiber inst) of Inr (Some st) \<Rightarrow> True | _ \<Rightarrow> False) \<and>
      s_reducer (scope inst) = toggleReducer)"

text \<open>
  The reducer that a render uses: the option \<^verbatim>\<open>reducer\<close>, or \<^verbatim>\<open>toggleReducer\<close> by the
  default of line 78.
\<close>

definition chosen_reducer :: "('v, 'h) options \<Rightarrow> 'v reducer" where
  "chosen_reducer opts = (case reducer opts of None \<Rightarrow> toggleReducer | Some r \<Rightarrow> r)"

text \<open>The calls of \<^verbatim>\<open>onChange\<close> that a lifetime has made, in order.\<close>

definition observer_calls :: "error + ('v, 'h) component \<Rightarrow> error + ('v, 'h) call list" where
  "observer_calls r = (case r of Inl e \<Rightarrow> Inl e | Inr inst \<Rightarrow> Inr (calls inst))"

text \<open>
  The invariant of a lifetime with the built-in transition function, in either mode and
  across mode changes: the closures of the latest render hold the state stored at that
  render (a later \<^verbatim>\<open>dispatch\<close> queues an action and leaves the stored state alone), the
  \<^verbatim>\<open>onChange\<close> and the mode of the options \<open>cur\<close> of that render, the \<^verbatim>\<open>on\<close> read from
  them, and the initial state \<open>init\<close>.
\<close>

definition in_step :: "'v state \<Rightarrow> ('v, 'h) options \<Rightarrow> ('v, 'h) component \<Rightarrow> bool" where
  "in_step init cur inst =
     (alive inst \<and>
      initialState_ref (fiber inst) = init \<and>
      s_initialState (scope inst) = init \<and>
      s_state (scope inst) = memoizedState (fiber inst) \<and>
      s_onChange (scope inst) = onChange cur \<and>
      s_onIsControlled (scope inst) = (controlledOn cur \<noteq> None) \<and>
      read_on (controlledOn cur) (memoizedState (fiber inst)) = Inr (s_on (scope inst)))"

text \<open>
  The options with which \<^verbatim>\<open>Toggle\<close> (lines 164-172) calls the hook for the toggles of
  \<^verbatim>\<open>App\<close>: the uncontrolled one of lines 209-213, with an \<^verbatim>\<open>onChange\<close> only, and the
  controlled ones of lines 194-195, with \<^verbatim>\<open>on\<close> and an \<^verbatim>\<open>onChange\<close>.
\<close>

definition uncontrolled_Toggle :: "(nat, unit) options" where
  "uncontrolled_Toggle =
     \<lparr>initialOn = None, reducer = None, onChange = Some (), controlledOn = None,
      readOnly = None\<rparr>"

definition controlled_Toggle :: "bool \<Rightarrow> (nat, unit) options" where
  "controlled_Toggle bothOn =
     \<lparr>initialOn = None, reducer = None, onChange = Some (), controlledOn = Some bothOn,
      readOnly = None\<rparr>"

section \<open>The transition function: properties\<close>

text \<open>
  Claim C2, as amended. For every state, the transition function applied with a toggle
  intent returns a fresh state whose \<open>on\<close> is the negation of the prior \<open>on\<close> and that
  has no other field: \<^verbatim>\<open>{on: !state.on}\<close> is built without spreading the prior state,
  so a field other than \<open>on\<close> is not carried over.
\<close>

theorem toggle_negates_on_and_drops_rest:
  "toggleReducer (Some s) \<lparr>type = actionTypes_toggle, initialState = p\<rparr> =
     Inr (Some \<lparr>on = \<not> on s, rest = Map.empty\<rparr>)"
  by (simp add: toggleReducer_def)

text \<open>
  Claim C2 as stated fails on a state with a second field: toggling
  \<^verbatim>\<open>{on: false, count: 1}\<close> gives \<^verbatim>\<open>{on: true}\<close>, where \<^verbatim>\<open>count\<close> is gone.
\<close>

theorem toggle_drops_other_fields:
  "toggleReducer (Some \<lparr>on = False, rest = [''count'' \<mapsto> (1::nat)]\<rparr>)
       \<lparr>type = ''toggle'', initialState = None\<rparr>
     = Inr (Some \<lparr>on = True, rest = Map.empty\<rparr>)
   \<and> rest \<lparr>on = False, rest = [''count'' \<mapsto> (1::nat)]\<rparr> ''count'' = Some 1
   \<and> rest \<lparr>on = True, rest = (Map.empty :: string \<rightharpoonup> nat)\<rparr> ''count'' = None"
  by (simp add: toggleReducer_def actionTypes_toggle_def)

text \<open>
  Claim C7. For every intent kind other than \<^verbatim>\<open>toggle\<close> and \<^verbatim>\<open>reset\<close>, the transition
  function throws an error naming the kind, whatever the state (defined or not). The
  function is pure: it returns no state on this path and assigns to nothing, so the
  prior state is what it was; and a render that finds such an action in the queue of
  \<^verbatim>\<open>useReducer\<close> throws the same error and stores no state, whatever is queued behind.
\<close>

theorem unsupported_type_throws:
  "type a \<noteq> actionTypes_toggle \<Longrightarrow> type a \<noteq> actionTypes_reset \<Longrightarrow>
   toggleReducer st a = Inl (Error (''Unsupported type: '' @ type a))
   \<and> reduce_queue toggleReducer st (a # q) = Inl (Error (''Unsupported type: '' @ type a))"
  by (simp add: toggleReducer_def)

theorem unsupported_type_throws_witness:
  "toggleReducer (Some \<lparr>on = True, rest = Map.empty :: string \<rightharpoonup> nat\<rparr>)
       \<lparr>type = ''explode'', initialState = None\<rparr>
     = Inl (Error ''Unsupported type: explode'')
   \<and> reduce_queue toggleReducer (Some \<lparr>on = True, rest = Map.empty :: string \<rightharpoonup> nat\<rparr>)
       [\<lparr>type = ''explode'', initialState = None\<rparr>, toggle_action]
     = Inl (Error ''Unsupported type: explode'')"
  using unsupported_type_throws
    [of "\<lparr>type = ''explode'', initialState = None\<rparr>"
        "Some \<lparr>on = True, rest = Map.empty :: string \<rightharpoonup> nat\<rparr>" "[toggle_action]"]
  by (simp add: actionTypes_toggle_def actionTypes_reset_def)

section \<open>Diagnostics: properties\<close>

text \<open>
  What the effect of \<^verbatim>\<open>useReadOnlyWarning\<close> logs when it runs on the mount: the message,
  unless the value is controlled, no \<^verbatim>\<open>onChange\<close> is given and \<^verbatim>\<open>readOnly\<close> is false.
\<close>

lemma readOnly_warning_mount:
  "snd (useReadOnlyWarning None v name h r) =
     (if v \<noteq> None \<and> h = None \<and> \<not> r then [] else [ReadOnlyField name])"
  by (simp add: useReadOnlyWarning_def Let_def useEffect_def warning_def)

text \<open>
  Claim C1 does not hold of the code. Line 53 hands \<^verbatim>\<open>warning\<close> the condition under which
  the message is due, and \<^verbatim>\<open>warning\<close> logs when its condition is false: a controlled
  value with no \<^verbatim>\<open>onChange\<close> and \<^verbatim>\<open>readOnly\<close> false logs nothing, and an uncontrolled
  instance with an \<^verbatim>\<open>onChange\<close> logs the message; so does, when it mounts in a
  development build, the uncontrolled toggle of \<^verbatim>\<open>App\<close>.
\<close>

theorem readOnly_warning_inverted:
  "snd (useReadOnlyWarning None (Some True) ''on'' (None :: unit option) False) = []
   \<and> snd (useReadOnlyWarning None (None :: bool option) ''on'' (Some ()) False) =
       [ReadOnlyField ''on'']
   \<and> advisories (mount True (controlled_Toggle True\<lparr>onChange := None\<rparr>)) = Inr []
   \<and> advisories (mount True uncontrolled_Toggle) = Inr [ReadOnlyField ''on'']"
  by (simp add: useReadOnlyWarning_def useControlledSwitchWarning_def Let_def useEffect_def
      useRef_def warning_def advisories_def mount_def useToggle_def useReducer_def read_on_def
      controlled_Toggle_def uncontrolled_Toggle_def)

lemma switch_warning_mount:
  "useControlledSwitchWarning None v =
     (\<lparr>wasControlled_ref = (v \<noteq> None), switch_deps = (v \<noteq> None, v \<noteq> None)\<rparr>, [])"
  by (simp add: useControlledSwitchWarning_def Let_def useRef_def useEffect_def warning_def)

lemma switch_warning_update:
  "useControlledSwitchWarning (Some \<lparr>wasControlled_ref = w, switch_deps = (w, p)\<rparr>) v =
     (\<lparr>wasControlled_ref = w, switch_deps = (w, v \<noteq> None)\<rparr>,
      if p = (v \<noteq> None) then []
      else if v \<noteq> None \<and> \<not> w then [UncontrolledToControlled]
      else if v = None \<and> w then [ControlledToUncontrolled]
      else [])"
  by (auto simp add: useControlledSwitchWarning_def Let_def useRef_def useEffect_def warning_def)

lemma observations_absent:
  "observations (Some \<lparr>wasControlled_ref = w, switch_deps = (w, False)\<rparr>) (replicate n None) = []"
  by (induction n) (simp_all add: switch_warning_update)

lemma observations_present:
  "observations (Some \<lparr>wasControlled_ref = w, switch_deps = (w, True)\<rparr>) (map Some bs) = []"
  by (induction bs) (simp_all add: switch_warning_update)

lemma observations_become_controlled:
  "observations (Some \<lparr>wasControlled_ref = False, switch_deps = (False, False)\<rparr>)
     (replicate n None @ map Some (b # bs)) = [UncontrolledToControlled]"
  by (induction n) (simp_all add: switch_warning_update observations_present)

lemma observations_become_uncontrolled:
  "observations (Some \<lparr>wasControlled_ref = True, switch_deps = (True, True)\<rparr>)
     (map Some bs @ replicate (Suc n) None) = [ControlledToUncontrolled]"
  by (induction bs) (simp_all add: switch_warning_update observations_absent)

text \<open>
  Claim C8. Over the lifetime of an instance, the mode-change check logs exactly one
  message, the uncontrolled-to-controlled one, when the control prop is absent at the
  mount and for some renders, and defined from then on; exactly one message, the
  controlled-to-uncontrolled one, in the reverse case; and nothing when the prop is
  absent at every render, or defined at every render.
\<close>

theorem mode_change_advisory_once:
  "observations None (replicate (Suc n) None @ map Some (b # bs)) = [UncontrolledToControlled]
   \<and> observations None (map Some (b # bs) @ replicate (Suc n) None) = [ControlledToUncontrolled]
   \<and> observations None (replicate n None) = []
   \<and> observations None (map Some bs) = []"
proof -
  have a: "observations None (replicate (Suc n) None @ map Some (b # bs)) =
      [UncontrolledToControlled]"
    using observations_become_controlled [of n b bs]
    by (simp add: switch_warning_mount)
  have b: "observations None (map Some (b # bs) @ replicate (Suc n) None) =
      [ControlledToUncontrolled]"
    using observations_become_uncontrolled [of bs n]
    by (simp add: switch_warning_mount)
  have c: "observations None (replicate n None) = []"
    by (cases n) (simp_all add: switch_warning_mount observations_absent)
  have d: "observations None (map Some bs) = []"
    by (cases bs) (simp_all add: switch_warning_mount observations_present)
  from a b c d show ?thesis by blast
qed

section \<open>Self-owned lifetimes\<close>

lemma reduce_queue_snoc:
  "reduce_queue r st (q @ [a]) =
     (case reduce_queue r st q of Inl e \<Rightarrow> Inl e | Inr st' \<Rightarrow> r st' a)"
  by (induction q arbitrary: st) (simp_all split: sum.splits)

lemma pending_dispatch:
  "pending (dispatch a f) = (case pending f of Inl e \<Rightarrow> Inl e | Inr st \<Rightarrow> toggleReducer st a)"
  by (simp add: pending_def dispatch_def reduce_queue_snoc)

lemma dispatch_frame:
  "initialState_ref (dispatch a f) = initialState_ref f"
  "memoizedState (dispatch a f) = memoizedState f"
  "queue (dispatch a f) = queue f @ [a]"
  "switch_warning (dispatch a f) = switch_warning f"
  "readOnly_warning (dispatch a f) = readOnly_warning f"
  by (simp_all add: dispatch_def)

lemma toggleReducer_toggle_action:
  "toggleReducer (Some s) toggle_action = Inr (Some \<lparr>on = \<not> on s, rest = Map.empty\<rparr>)"
  by (simp add: toggleReducer_def toggle_action_def)

lemma toggleReducer_reset_action:
  "toggleReducer st (reset_action sc) = Inr (Some (s_initialState sc))"
  by (simp add: toggleReducer_def reset_action_def actionTypes_toggle_def actionTypes_reset_def)

lemma mount_self_owned:
  assumes "self_owned opts"
  shows "\<exists>inst. mount dev opts = Inr inst \<and> settled (initial_state opts) (initial_state opts) inst
           \<and> s_on (scope inst) = on (initial_state opts) \<and> calls inst = []"
  using assms
  by (simp add: self_owned_def mount_def useToggle_def Let_def useReducer_def useRef_def read_on_def
      settled_def pending_def initial_state_def)

lemma render_settled:
  assumes "settled init st inst" and "self_owned opts"
  shows "\<exists>inst'. step dev inst (Render opts) = Inr inst' \<and> settled init st inst'
           \<and> s_on (scope inst') = on st \<and> memoizedState (fiber inst') = Some st
           \<and> queue (fiber inst') = [] \<and> calls inst' = calls inst"
  using assms
  by (simp add: self_owned_def useToggle_def Let_def useReducer_def useRef_def read_on_def
      settled_def pending_def)

lemma toggle_settled:
  assumes "settled init st inst"
  shows "\<exists>inst'. step dev inst Toggle = Inr inst'
           \<and> settled init \<lparr>on = \<not> on st, rest = Map.empty\<rparr> inst'"
proof (cases "s_onChange (scope inst)")
  case None
  with assms show ?thesis
    by (simp add: settled_def toggle_def dispatchWithOnChange_def called_def pending_dispatch dispatch_frame
        toggleReducer_toggle_action)
next
  case (Some h)
  with assms show ?thesis
    by (simp add: settled_def toggle_def dispatchWithOnChange_def called_def pending_dispatch dispatch_frame
        toggleReducer_toggle_action)
qed

lemma reset_settled:
  assumes "settled init st inst"
  shows "\<exists>inst'. step dev inst Reset = Inr inst' \<and> settled init init inst'"
proof (cases "s_onChange (scope inst)")
  case None
  with assms show ?thesis
    by (simp add: settled_def reset_def dispatchWithOnChange_def called_def pending_dispatch dispatch_frame
        toggleReducer_reset_action)
next
  case (Some h)
  with assms show ?thesis
    by (simp add: settled_def reset_def dispatchWithOnChange_def called_def pending_dispatch dispatch_frame
        toggleReducer_reset_action)
qed

lemma run_settled:
  assumes "settled init st inst" and "list_all (renders self_owned) evs"
  shows "\<exists>inst'. run dev inst evs = Inr inst' \<and> settled init (after init st evs) inst'"
  using assms
proof (induction evs arbitrary: st inst)
  case Nil
  then show ?case by simp
next
  case (Cons ev evs)
  show ?case
  proof (cases ev)
    case (Render opts)
    with Cons.prems have "self_owned opts" by simp
    from render_settled [OF Cons.prems(1) this, of dev]
    obtain i where i: "step dev inst (Render opts) = Inr i" "settled init st i" by blast
    from Cons.IH [OF i(2)] Cons.prems(2)
    obtain j where "run dev i evs = Inr j" "settled init (after init st evs) j" by auto
    with i Render show ?thesis by simp
  next
    case Toggle
    from toggle_settled [OF Cons.prems(1), of dev]
    obtain i where i: "step dev inst Toggle = Inr i"
      "settled init \<lparr>on = \<not> on st, rest = Map.empty\<rparr> i" by blast
    from Cons.IH [OF i(2)] Cons.prems(2)
    obtain j where "run dev i evs = Inr j"
      "settled init (after init \<lparr>on = \<not> on st, rest = Map.empty\<rparr> evs) j" by auto
    with i Toggle show ?thesis by simp
  next
    case Reset
    from reset_settled [OF Cons.prems(1), of dev]
    obtain i where i: "step dev inst Reset = Inr i" "settled init init i" by blast
    from Cons.IH [OF i(2)] Cons.prems(2)
    obtain j where "run dev i evs = Inr j" "settled init (after init init evs) j" by auto
    with i Reset show ?thesis by simp
  qed
qed

lemma run_append:
  "run dev inst (xs @ ys) =
     (case run dev inst xs of Inl e \<Rightarrow> Inl e | Inr inst' \<Rightarrow> run dev inst' ys)"
  by (induction xs arbitrary: inst) (simp_all split: sum.splits)

lemma after_toggles:
  "resets evs = 0 \<Longrightarrow> on (after init st evs) = (on st \<noteq> odd (toggles evs))"
  by (induction init st evs rule: after.induct) auto

lemma lifetime_self_owned:
  assumes "self_owned opts" and "list_all (renders self_owned) evs"
  shows "\<exists>inst. lifetime dev opts evs = Inr inst
           \<and> settled (initial_state opts) (after (initial_state opts) (initial_state opts) evs) inst"
proof -
  from mount_self_owned [OF assms(1), of dev]
  obtain i where i: "mount dev opts = Inr i" "settled (initial_state opts) (initial_state opts) i"
    by blast
  from run_settled [OF i(2) assms(2), of dev] i(1) show ?thesis
    by (simp add: lifetime_def)
qed

lemma lifetime_snoc:
  "lifetime dev opts (evs @ [ev]) =
     (case lifetime dev opts evs of Inl e \<Rightarrow> Inl e | Inr inst \<Rightarrow> step dev inst ev)"
  by (simp add: lifetime_def run_append split: sum.splits)

lemma lifetime_self_owned_render:
  assumes "self_owned opts" and "list_all (renders self_owned) evs" and "self_owned opts'"
  shows "\<exists>inst. lifetime dev opts (evs @ [Render opts']) = Inr inst
           \<and> memoizedState (fiber inst) = Some (after (initial_state opts) (initial_state opts) evs)
           \<and> queue (fiber inst) = []
           \<and> s_on (scope inst) = on (after (initial_state opts) (initial_state opts) evs)"
proof -
  from lifetime_self_owned [OF assms(1,2), of dev]
  obtain i where i: "lifetime dev opts evs = Inr i"
    "settled (initial_state opts) (after (initial_state opts) (initial_state opts) evs) i"
    by blast
  from render_settled [OF i(2) assms(3), of dev] i(1) show ?thesis
    by (auto simp add: lifetime_snoc)
qed

lemma after_snoc_Reset: "after init st (evs @ [Reset]) = init"
  by (induction init st evs rule: after.induct) simp_all

lemma toggles_replicate: "toggles (replicate n Toggle) = n"
  by (induction n) simp_all

lemma resets_replicate: "resets (replicate n Toggle) = 0"
  by (induction n) simp_all

lemma renders_replicate: "list_all (renders P) (replicate n Toggle)"
  by (induction n) simp_all

lemma toggles_parity:
  assumes "self_owned opts" and "initialOn opts = None \<or> initialOn opts = Some False"
    and "list_all (renders self_owned) evs" and "resets evs = 0" and "self_owned opts'"
  shows "reported (lifetime dev opts (evs @ [Render opts'])) = Inr (odd (toggles evs))"
proof -
  from assms(2) have "on (initial_state opts :: 'a state) = False"
    by (auto simp add: initial_state_def)
  with after_toggles [OF assms(4), of "initial_state opts" "initial_state opts"]
  have "on (after (initial_state opts) (initial_state opts) evs) = odd (toggles evs)"
    by simp
  with lifetime_self_owned_render [OF assms(1,3,5), of dev] show ?thesis
    by (auto simp add: reported_def)
qed

text \<open>
  Claim C4. A self-owned instance with the built-in transition function, mounted with
  \<^verbatim>\<open>initialOn\<close> false (or left to its default), reports after \<open>N\<close> calls of \<^verbatim>\<open>toggle\<close>,
  at its next render, \<^verbatim>\<open>on\<close> = (\<open>N\<close> is odd). This holds when the calls come in a
  row, and when self-owned renders come between them in any way; a render after each of
  three calls reports true, false, true.
\<close>

theorem toggles_alternate:
  assumes "self_owned opts" and "initialOn opts = None \<or> initialOn opts = Some False"
    and "self_owned opts'"
    and "list_all (renders self_owned) evs" and "resets evs = 0"
  shows "reported (lifetime dev opts (replicate N Toggle @ [Render opts'])) = Inr (odd N)
       \<and> reported (lifetime dev opts (evs @ [Render opts'])) = Inr (odd (toggles evs))
       \<and> map (\<lambda>evs. reported (lifetime dev opts evs))
           [[Toggle, Render opts'],
            [Toggle, Render opts', Toggle, Render opts'],
            [Toggle, Render opts', Toggle, Render opts', Toggle, Render opts']]
         = [Inr True, Inr False, Inr True]"
proof -
  have a: "reported (lifetime dev opts (replicate N Toggle @ [Render opts'])) = Inr (odd N)"
    using toggles_parity [OF assms(1,2) renders_replicate resets_replicate assms(3)]
    by (simp add: toggles_replicate)
  have b: "reported (lifetime dev opts (evs @ [Render opts'])) = Inr (odd (toggles evs))"
    using toggles_parity [OF assms(1,2,4,5,3)] .
  have c1: "reported (lifetime dev opts [Toggle, Render opts']) = Inr True"
    using toggles_parity [OF assms(1,2) _ _ assms(3), where evs = "[Toggle]"] by simp
  have c2: "reported (lifetime dev opts [Toggle, Render opts', Toggle, Render opts']) = Inr False"
    using toggles_parity [OF assms(1,2) _ _ assms(3), where evs = "[Toggle, Render opts', Toggle]"]
      assms(3) by simp
  have c3: "reported (lifetime dev opts
      [Toggle, Render opts', Toggle, Render opts', Toggle, Render opts']) = Inr True"
    using toggles_parity [OF assms(1,2) _ _ assms(3),
        where evs = "[Toggle, Render opts', Toggle, Render opts', Toggle]"]
      assms(3) by simp
  from a b c1 c2 c3 show ?thesis by simp
qed

theorem toggles_alternate_witness:
  "self_owned uncontrolled_Toggle
   \<and> initialOn uncontrolled_Toggle = None
   \<and> list_all (renders self_owned) [Toggle, Render uncontrolled_Toggle, Toggle, Toggle]
   \<and> resets [Toggle, Render uncontrolled_Toggle, Toggle, Toggle] = 0
   \<and> reported (lifetime True uncontrolled_Toggle
         (replicate 3 Toggle @ [Render uncontrolled_Toggle])) = Inr True
   \<and> reported (lifetime True uncontrolled_Toggle
         ([Toggle, Render uncontrolled_Toggle, Toggle, Toggle] @ [Render uncontrolled_Toggle]))
       = Inr True
   \<and> reported (lifetime True uncontrolled_Toggle
         [Toggle, Render uncontrolled_Toggle, Toggle, Render uncontrolled_Toggle]) = Inr False"
  using toggles_alternate [where opts = uncontrolled_Toggle and opts' = uncontrolled_Toggle
      and evs = "[Toggle, Render uncontrolled_Toggle, Toggle, Toggle]" and dev = True and N = 3]
  by (simp add: self_owned_def uncontrolled_Toggle_def)

text \<open>
  Claim C5. In a self-owned lifetime with the built-in transition function, whatever
  calls of \<^verbatim>\<open>toggle\<close> and \<^verbatim>\<open>reset\<close> and whatever renders came before (the renders with
  any \<^verbatim>\<open>initialOn\<close>), a call of \<^verbatim>\<open>reset\<close> makes the next render store and report the
  state \<^verbatim>\<open>{on: initialOn}\<close> built at the mount.
\<close>

theorem reset_restores_initial_state:
  assumes "self_owned opts" and "list_all (renders self_owned) evs" and "self_owned opts'"
  shows "committed (lifetime dev opts (evs @ [Reset, Render opts'])) = Inr (Some (initial_state opts))
       \<and> reported (lifetime dev opts (evs @ [Reset, Render opts'])) = Inr (on (initial_state opts))"
proof -
  from assms(2) have "list_all (renders self_owned) (evs @ [Reset])" by simp
  from lifetime_self_owned_render [OF assms(1) this assms(3), of dev] show ?thesis
    by (auto simp add: after_snoc_Reset committed_def reported_def)
qed

theorem reset_restores_initial_state_witness:
  "self_owned (uncontrolled_Toggle\<lparr>initialOn := Some True\<rparr>)
   \<and> list_all (renders self_owned) [Toggle, Render uncontrolled_Toggle, Toggle, Toggle]
   \<and> self_owned uncontrolled_Toggle
   \<and> committed (lifetime True (uncontrolled_Toggle\<lparr>initialOn := Some True\<rparr>)
         ([Toggle, Render uncontrolled_Toggle, Toggle, Toggle] @
          [Reset, Render uncontrolled_Toggle]))
       = Inr (Some \<lparr>on = True, rest = Map.empty\<rparr>)
   \<and> reported (lifetime True (uncontrolled_Toggle\<lparr>initialOn := Some True\<rparr>)
         ([Toggle, Render uncontrolled_Toggle, Toggle, Toggle] @
          [Reset, Render uncontrolled_Toggle]))
       = Inr True"
  using reset_restores_initial_state
    [where opts = "uncontrolled_Toggle\<lparr>initialOn := Some True\<rparr>"
      and opts' = uncontrolled_Toggle
      and evs = "[Toggle, Render uncontrolled_Toggle, Toggle, Toggle]" and dev = True]
  by (simp add: self_owned_def uncontrolled_Toggle_def initial_state_def)

section \<open>Externally-owned lifetimes\<close>

lemma controlled_call_frame:
  "s_onIsControlled sc \<Longrightarrow> fst (snd (dispatchWithOnChange sc a w)) = fst w"
  by (simp add: dispatchWithOnChange_def Let_def split: option.splits sum.splits)

lemma toggleReducer_spread_toggle:
  "toggleReducer (Some (spread_on st b)) toggle_action =
     Inr (Some \<lparr>on = \<not> b, rest = Map.empty\<rparr>)"
  by (simp add: toggleReducer_toggle_action spread_on_def split: option.splits)

lemma mount_externally_owned:
  assumes "externally_owned opts"
  shows "\<exists>inst. mount dev opts = Inr inst \<and> standby (initial_state opts) opts inst"
  using assms
  by (auto simp add: externally_owned_def mount_def useToggle_def Let_def useReducer_def
      useRef_def read_on_def standby_def initial_state_def)

lemma render_standby:
  assumes "standby init cur inst" and "externally_owned opts"
  shows "\<exists>inst'. step dev inst (Render opts) = Inr inst' \<and> standby init opts inst'"
  using assms
  by (auto simp add: externally_owned_def useToggle_def Let_def useReducer_def
      useRef_def read_on_def standby_def)

lemma toggle_standby:
  assumes "standby init cur inst"
  shows "\<exists>inst'. step dev inst Toggle = Inr inst' \<and> standby init cur inst'"
  using assms
  by (cases "s_onChange (scope inst)")
    (simp_all add: standby_def toggle_def dispatchWithOnChange_def called_def
      toggleReducer_spread_toggle)

lemma reset_standby:
  assumes "standby init cur inst"
  shows "\<exists>inst'. step dev inst Reset = Inr inst' \<and> standby init cur inst'"
  using assms
  by (cases "s_onChange (scope inst)")
    (simp_all add: standby_def reset_def dispatchWithOnChange_def called_def
      toggleReducer_reset_action)

lemma run_standby:
  assumes "standby init cur inst" and "list_all (renders externally_owned) evs"
  shows "\<exists>inst'. run dev inst evs = Inr inst' \<and> standby init (latest cur evs) inst'"
  using assms
proof (induction evs arbitrary: cur inst)
  case Nil
  then show ?case by simp
next
  case (Cons ev evs)
  show ?case
  proof (cases ev)
    case (Render opts)
    with Cons.prems have "externally_owned opts" by simp
    from render_standby [OF Cons.prems(1) this, of dev]
    obtain i where i: "step dev inst (Render opts) = Inr i" "standby init opts i" by blast
    from Cons.IH [OF i(2)] Cons.prems(2)
    obtain j where "run dev i evs = Inr j" "standby init (latest opts evs) j" by auto
    with i Render show ?thesis by simp
  next
    case Toggle
    from toggle_standby [OF Cons.prems(1), of dev]
    obtain i where i: "step dev inst Toggle = Inr i" "standby init cur i" by blast
    from Cons.IH [OF i(2)] Cons.prems(2)
    obtain j where "run dev i evs = Inr j" "standby init (latest cur evs) j" by auto
    with i Toggle show ?thesis by simp
  next
    case Reset
    from reset_standby [OF Cons.prems(1), of dev]
    obtain i where i: "step dev inst Reset = Inr i" "standby init cur i" by blast
    from Cons.IH [OF i(2)] Cons.prems(2)
    obtain j where "run dev i evs = Inr j" "standby init (latest cur evs) j" by auto
    with i Reset show ?thesis by simp
  qed
qed

text \<open>
  Claim C6. In an externally-owned lifetime with the built-in transition function (the
  control prop defined at the mount and at every render, with any values), whatever
  calls of \<^verbatim>\<open>toggle\<close> and \<^verbatim>\<open>reset\<close> are made, the state stored by \<^verbatim>\<open>useReducer\<close> stays
  the initial one and nothing is dispatched, and the \<^verbatim>\<open>on\<close> reported is the control prop
  of the latest render.
\<close>

theorem controlled_standby_untouched:
  assumes "externally_owned opts" and "list_all (renders externally_owned) evs"
  shows "\<exists>inst. lifetime dev opts evs = Inr inst
           \<and> memoizedState (fiber inst) = Some (initial_state opts)
           \<and> queue (fiber inst) = []
           \<and> controlledOn (latest opts evs) = Some (s_on (scope inst))"
proof -
  from mount_externally_owned [OF assms(1), of dev]
  obtain i where i: "mount dev opts = Inr i" "standby (initial_state opts) opts i" by blast
  from run_standby [OF i(2) assms(2), of dev]
  obtain j where "run dev i evs = Inr j" "standby (initial_state opts) (latest opts evs) j"
    by blast
  with i(1) show ?thesis by (simp add: lifetime_def standby_def)
qed

theorem controlled_standby_untouched_witness:
  "externally_owned (controlled_Toggle False)
   \<and> list_all (renders externally_owned)
       [Toggle, Render (controlled_Toggle True), Toggle, Reset, Render (controlled_Toggle True)]
   \<and> committed (lifetime True (controlled_Toggle False)
       [Toggle, Render (controlled_Toggle True), Toggle, Reset, Render (controlled_Toggle True)])
     = Inr (Some \<lparr>on = False, rest = Map.empty\<rparr>)
   \<and> reported (lifetime True (controlled_Toggle False)
       [Toggle, Render (controlled_Toggle True), Toggle, Reset, Render (controlled_Toggle True)])
     = Inr True"
  using controlled_standby_untouched [where opts = "controlled_Toggle False" and dev = True
      and evs = "[Toggle, Render (controlled_Toggle True), Toggle, Reset,
                  Render (controlled_Toggle True)]"]
  by (auto simp add: externally_owned_def controlled_Toggle_def initial_state_def
      committed_def reported_def)

section \<open>Diagnostics and returned values\<close>

lemma useToggle_core:
  assumes "same_but_readOnly opts1 opts2" and "map_option core cell1 = map_option core cell2"
  shows "(case useToggle dev1 opts1 cell1 of Inl e \<Rightarrow> Inl e | Inr (f, sc, lg) \<Rightarrow> Inr (core f, sc)) =
         (case useToggle dev2 opts2 cell2 of Inl e \<Rightarrow> Inl e | Inr (f, sc, lg) \<Rightarrow> Inr (core f, sc))"
proof -
  have r: "useReducer cell1 r i = useReducer cell2 r i" for r :: "'a reducer" and i
    using assms(2) by (cases cell1; cases cell2) (simp_all add: useReducer_def core_def)
  have i: "map_option initialState_ref cell1 = map_option initialState_ref cell2"
    using assms(2) by (cases cell1; cases cell2) (simp_all add: core_def)
  show ?thesis
    using assms(1)
    by (simp add: useToggle_def Let_def same_but_readOnly_def r i core_def
        split: sum.splits)
qed

lemma mount_outcome:
  assumes "same_but_readOnly opts1 opts2"
  shows "outcome (mount dev1 opts1) = outcome (mount dev2 opts2)"
  using useToggle_core [OF assms, of None None dev1 dev2]
  by (auto simp add: outcome_def returned_def mount_def split: sum.splits)

lemma step_outcome:
  assumes "returned i1 = returned i2" and "same_intents e1 e2"
  shows "outcome (step dev1 i1 e1) = outcome (step dev2 i2 e2)"
proof (cases e1)
  case (Render opts1)
  with assms(2) obtain opts2 where e2: "e2 = Render opts2" and s: "same_but_readOnly opts1 opts2"
    by (cases e2) simp_all
  from assms(1) have "map_option core (Some (fiber i1)) = map_option core (Some (fiber i2))"
    by (simp add: returned_def)
  from useToggle_core [OF s this, of dev1 dev2] assms(1) show ?thesis
    by (auto simp add: Render e2 outcome_def returned_def split: sum.splits)
next
  case Toggle
  with assms(2) have e2: "e2 = Toggle" by (cases e2) simp_all
  from assms(1) show ?thesis
    by (auto simp add: Toggle e2 outcome_def returned_def called_def toggle_def
        dispatchWithOnChange_def Let_def core_def dispatch_def split: option.splits sum.splits)
next
  case Reset
  with assms(2) have e2: "e2 = Reset" by (cases e2) simp_all
  from assms(1) show ?thesis
    by (auto simp add: Reset e2 outcome_def returned_def called_def reset_def
        dispatchWithOnChange_def Let_def core_def dispatch_def split: option.splits sum.splits)
qed

lemma run_outcome:
  assumes "list_all2 same_intents evs1 evs2" and "returned i1 = returned i2"
  shows "outcome (run dev1 i1 evs1) = outcome (run dev2 i2 evs2)"
  using assms
proof (induction evs1 evs2 arbitrary: i1 i2 rule: list_all2_induct)
  case Nil
  then show ?case by (simp add: outcome_def)
next
  case (Cons e1 evs1 e2 evs2)
  from step_outcome [OF Cons.prems Cons.hyps(1), of dev1 dev2]
  consider (err) e where "step dev1 i1 e1 = Inl e" "step dev2 i2 e2 = Inl e"
    | (ok) j1 j2 where "step dev1 i1 e1 = Inr j1" "step dev2 i2 e2 = Inr j2"
        "returned j1 = returned j2"
    by (auto simp add: outcome_def split: sum.splits)
  then show ?case
  proof cases
    case err
    then show ?thesis by (simp add: outcome_def)
  next
    case ok
    with Cons.IH [OF ok(3)] show ?thesis by simp
  qed
qed

text \<open>
  Claim C9. Two lifetimes with the same intents, whose options agree at the mount and at
  every render on everything but \<^verbatim>\<open>readOnly\<close>, one in any build and the other in any
  build (development, where the diagnostics run, or production, where they do not),
  return the same values: the same \<^verbatim>\<open>on\<close>, stored state, queue and closures, the same
  calls of \<^verbatim>\<open>onChange\<close> with the same arguments, or the same exception.
\<close>

theorem diagnostics_do_not_interfere:
  assumes "same_but_readOnly opts1 opts2" and "list_all2 same_intents evs1 evs2"
  shows "outcome (lifetime dev1 opts1 evs1) = outcome (lifetime dev2 opts2 evs2)"
proof -
  from mount_outcome [OF assms(1), of dev1 dev2]
  consider (err) e where "mount dev1 opts1 = Inl e" "mount dev2 opts2 = Inl e"
    | (ok) j1 j2 where "mount dev1 opts1 = Inr j1" "mount dev2 opts2 = Inr j2"
        "returned j1 = returned j2"
    by (auto simp add: outcome_def split: sum.splits)
  then show ?thesis
  proof cases
    case err
    then show ?thesis by (simp add: lifetime_def outcome_def)
  next
    case ok
    with run_outcome [OF assms(2) ok(3), of dev1 dev2] show ?thesis
      by (simp add: lifetime_def)
  qed
qed

theorem diagnostics_do_not_interfere_witness:
  "same_but_readOnly (controlled_Toggle True) (controlled_Toggle True\<lparr>readOnly := Some True\<rparr>)
   \<and> list_all2 same_intents
       [Toggle, Render (controlled_Toggle False), Reset]
       [Toggle, Render (controlled_Toggle False\<lparr>readOnly := Some True\<rparr>), Reset]
   \<and> outcome (lifetime True (controlled_Toggle True)
         [Toggle, Render (controlled_Toggle False), Reset])
     = outcome (lifetime False (controlled_Toggle True\<lparr>readOnly := Some True\<rparr>)
         [Toggle, Render (controlled_Toggle False\<lparr>readOnly := Some True\<rparr>), Reset])"
  using diagnostics_do_not_interfere
    [where ?opts1.0 = "controlled_Toggle True"
      and ?opts2.0 = "controlled_Toggle True\<lparr>readOnly := Some True\<rparr>"
      and ?evs1.0 = "[Toggle, Render (controlled_Toggle False), Reset]"
      and ?evs2.0 = "[Toggle, Render (controlled_Toggle False\<lparr>readOnly := Some True\<rparr>), Reset]"
      and ?dev1.0 = True and ?dev2.0 = False]
  by (simp add: same_but_readOnly_def controlled_Toggle_def)

section \<open>The mode-change check over the lifetime of an instance\<close>

lemma alive_iff:
  "alive inst = ((\<exists>st. pending (fiber inst) = Inr (Some st)) \<and> s_reducer (scope inst) = toggleReducer)"
  by (auto simp add: alive_def split: sum.splits option.splits)

lemma filter_switch_warning:
  "filter is_mode_change (snd (useControlledSwitchWarning cells v)) =
     snd (useControlledSwitchWarning cells v)"
  by (simp add: useControlledSwitchWarning_def Let_def warning_def)

lemma filter_readOnly_warning:
  "filter is_mode_change (snd (useReadOnlyWarning cell v name h r)) = []"
  by (simp add: useReadOnlyWarning_def Let_def warning_def)

lemma mount_alive:
  assumes "built_in opts"
  shows "\<exists>inst. mount True opts = Inr inst \<and> alive inst
           \<and> switch_warning (fiber inst) = Some (fst (useControlledSwitchWarning None (controlledOn opts)))
           \<and> filter is_mode_change (console inst) = snd (useControlledSwitchWarning None (controlledOn opts))"
  using assms
  by (auto simp add: built_in_def mount_def useToggle_def Let_def useReducer_def useRef_def
      read_on_def alive_iff pending_def filter_switch_warning filter_readOnly_warning
      split: option.splits)

lemma render_alive:
  assumes "alive inst" and "built_in opts"
  shows "\<exists>inst'. step True inst (Render opts) = Inr inst' \<and> alive inst'
           \<and> switch_warning (fiber inst') =
               Some (fst (useControlledSwitchWarning (switch_warning (fiber inst)) (controlledOn opts)))
           \<and> filter is_mode_change (console inst') =
               filter is_mode_change (console inst) @
               snd (useControlledSwitchWarning (switch_warning (fiber inst)) (controlledOn opts))"
  using assms
  by (auto simp add: built_in_def useToggle_def Let_def useReducer_def useRef_def
      read_on_def alive_iff pending_def filter_switch_warning filter_readOnly_warning
      split: option.splits)

lemma call_alive:
  assumes "alive inst" and "a = toggle_action \<or> a = reset_action (scope inst)"
  shows "\<exists>inst'. called inst (dispatchWithOnChange (scope inst) a (fiber inst, calls inst)) = Inr inst'
           \<and> alive inst'
           \<and> switch_warning (fiber inst') = switch_warning (fiber inst)
           \<and> console inst' = console inst"
proof -
  from assms(1) obtain st where st: "pending (fiber inst) = Inr (Some st)"
    and r: "s_reducer (scope inst) = toggleReducer"
    by (auto simp add: alive_iff)
  have ok: "\<exists>n. toggleReducer (Some s) a = Inr (Some n)" for s :: "'a state"
    using assms(2) by (auto simp add: toggleReducer_toggle_action toggleReducer_reset_action)
  from ok [of st] obtain n where n: "toggleReducer (Some st) a = Inr (Some n)" by blast
  from ok [of "spread_on (s_state (scope inst)) (s_on (scope inst))"]
  obtain m where m: "toggleReducer (Some (spread_on (s_state (scope inst)) (s_on (scope inst)))) a
      = Inr (Some m)" by blast
  show ?thesis
    using st r n m
    by (cases "s_onChange (scope inst)")
      (simp_all add: dispatchWithOnChange_def called_def alive_iff pending_dispatch
        dispatch_frame Let_def)
qed

lemma run_alive:
  assumes "alive inst" and "list_all (renders built_in) evs"
  shows "\<exists>inst'. run True inst evs = Inr inst'
           \<and> filter is_mode_change (console inst') =
               filter is_mode_change (console inst) @
               observations (switch_warning (fiber inst)) (observed evs)"
  using assms
proof (induction evs arbitrary: inst)
  case Nil
  then show ?case by simp
next
  case (Cons ev evs)
  show ?case
  proof (cases ev)
    case (Render opts)
    with Cons.prems have "built_in opts" by simp
    from render_alive [OF Cons.prems(1) this]
    obtain i where i: "step True inst (Render opts) = Inr i" "alive i"
      "switch_warning (fiber i) =
         Some (fst (useControlledSwitchWarning (switch_warning (fiber inst)) (controlledOn opts)))"
      "filter is_mode_change (console i) =
         filter is_mode_change (console inst) @
         snd (useControlledSwitchWarning (switch_warning (fiber inst)) (controlledOn opts))"
      by blast
    from Cons.IH [OF i(2)] Cons.prems(2)
    obtain j where "run True i evs = Inr j"
      "filter is_mode_change (console j) =
         filter is_mode_change (console i) @ observations (switch_warning (fiber i)) (observed evs)"
      by auto
    with i Render show ?thesis by simp
  next
    case Toggle
    from call_alive [OF Cons.prems(1), of toggle_action]
    obtain i where i: "step True inst Toggle = Inr i" "alive i"
      "switch_warning (fiber i) = switch_warning (fiber inst)" "console i = console inst"
      by (auto simp add: toggle_def)
    from Cons.IH [OF i(2)] Cons.prems(2)
    obtain j where "run True i evs = Inr j"
      "filter is_mode_change (console j) =
         filter is_mode_change (console i) @ observations (switch_warning (fiber i)) (observed evs)"
      by auto
    with i Toggle show ?thesis by simp
  next
    case Reset
    from call_alive [OF Cons.prems(1), of "reset_action (scope inst)"]
    obtain i where i: "step True inst Reset = Inr i" "alive i"
      "switch_warning (fiber i) = switch_warning (fiber inst)" "console i = console inst"
      by (auto simp add: reset_def)
    from Cons.IH [OF i(2)] Cons.prems(2)
    obtain j where "run True i evs = Inr j"
      "filter is_mode_change (console j) =
         filter is_mode_change (console i) @ observations (switch_warning (fiber i)) (observed evs)"
      by auto
    with i Reset show ?thesis by simp
  qed
qed

text \<open>
  In a development build, what the mode-change check logs over the lifetime of an
  instance with the built-in transition function is what \<open>observations\<close> gives for the
  control props of its renders, whatever calls of \<^verbatim>\<open>toggle\<close> and \<^verbatim>\<open>reset\<close> come between.
\<close>

lemma lifetime_mode_advisories:
  assumes "built_in opts" and "list_all (renders built_in) evs"
  shows "\<exists>inst. lifetime True opts evs = Inr inst
           \<and> filter is_mode_change (console inst) =
               observations None (controlledOn opts # observed evs)"
proof -
  from mount_alive [OF assms(1)]
  obtain i where i: "mount True opts = Inr i" "alive i"
    "switch_warning (fiber i) = Some (fst (useControlledSwitchWarning None (controlledOn opts)))"
    "filter is_mode_change (console i) = snd (useControlledSwitchWarning None (controlledOn opts))"
    by blast
  from run_alive [OF i(2) assms(2)] i show ?thesis
    by (auto simp add: lifetime_def)
qed

section \<open>The observer\<close>

lemma mount_in_step:
  assumes "built_in opts"
  shows "\<exists>inst. mount dev opts = Inr inst \<and> in_step (initial_state opts) opts inst"
  using assms
  by (auto simp add: built_in_def mount_def useToggle_def Let_def useReducer_def useRef_def
      read_on_def alive_iff pending_def in_step_def initial_state_def split: option.splits)

lemma render_in_step:
  assumes "in_step init cur inst" and "built_in opts"
  shows "\<exists>inst'. step dev inst (Render opts) = Inr inst' \<and> in_step init opts inst'"
proof -
  from assms(1) obtain st where st: "pending (fiber inst) = Inr (Some st)"
    and i: "initialState_ref (fiber inst) = init"
    by (auto simp add: in_step_def alive_iff)
  show ?thesis
  proof (cases "controlledOn opts")
    case None
    with st i assms(2) show ?thesis
      by (simp add: built_in_def useToggle_def Let_def useReducer_def useRef_def
          read_on_def alive_iff pending_def in_step_def)
  next
    case (Some b)
    with st i assms(2) show ?thesis
      by (simp add: built_in_def useToggle_def Let_def useReducer_def useRef_def
          read_on_def alive_iff pending_def in_step_def)
  qed
qed

lemma call_in_step:
  assumes "in_step init cur inst" and "a = toggle_action \<or> a = reset_action (scope inst)"
  shows "\<exists>n. toggleReducer (Some (spread_on (memoizedState (fiber inst)) (s_on (scope inst)))) a
               = Inr (Some n)
           \<and> called inst (dispatchWithOnChange (scope inst) a (fiber inst, calls inst)) =
               Inr (inst\<lparr>fiber := (if controlledOn cur = None then dispatch a (fiber inst)
                                    else fiber inst),
                         calls := (case onChange cur of
                                     None \<Rightarrow> calls inst
                                   | Some h \<Rightarrow> calls inst @ [(h, Some n, a)])\<rparr>)
           \<and> in_step init cur
               (inst\<lparr>fiber := (if controlledOn cur = None then dispatch a (fiber inst)
                                else fiber inst),
                     calls := (case onChange cur of
                                 None \<Rightarrow> calls inst
                               | Some h \<Rightarrow> calls inst @ [(h, Some n, a)])\<rparr>)"
proof -
  from assms(1) obtain st where st: "pending (fiber inst) = Inr (Some st)"
    and r: "s_reducer (scope inst) = toggleReducer"
    by (auto simp add: in_step_def alive_iff)
  have ok: "\<exists>n. toggleReducer (Some s) a = Inr (Some n)" for s :: "'a state"
    using assms(2) by (auto simp add: toggleReducer_toggle_action toggleReducer_reset_action)
  from ok [of st] obtain k where k: "toggleReducer (Some st) a = Inr (Some k)" by blast
  from ok [of "spread_on (memoizedState (fiber inst)) (s_on (scope inst))"]
  obtain n where n: "toggleReducer (Some (spread_on (memoizedState (fiber inst)) (s_on (scope inst)))) a
      = Inr (Some n)" by blast
  have "called inst (dispatchWithOnChange (scope inst) a (fiber inst, calls inst)) =
               Inr (inst\<lparr>fiber := (if controlledOn cur = None then dispatch a (fiber inst)
                                    else fiber inst),
                         calls := (case onChange cur of
                                     None \<Rightarrow> calls inst
                                   | Some h \<Rightarrow> calls inst @ [(h, Some n, a)])\<rparr>)"
    using assms(1) r n
    by (cases "onChange cur")
      (simp_all add: in_step_def dispatchWithOnChange_def called_def Let_def)
  moreover have "in_step init cur
               (inst\<lparr>fiber := (if controlledOn cur = None then dispatch a (fiber inst)
                                else fiber inst),
                     calls := (case onChange cur of
                                 None \<Rightarrow> calls inst
                               | Some h \<Rightarrow> calls inst @ [(h, Some n, a)])\<rparr>)"
    using assms(1) st k
    by (cases "controlledOn cur")
      (simp_all add: in_step_def alive_iff pending_dispatch dispatch_frame)
  ultimately show ?thesis using n by blast
qed

lemma run_in_step:
  assumes "in_step init cur inst" and "list_all (renders built_in) evs"
  shows "\<exists>inst'. run dev inst evs = Inr inst' \<and> in_step init (latest cur evs) inst'"
  using assms
proof (induction evs arbitrary: cur inst)
  case Nil
  then show ?case by simp
next
  case (Cons ev evs)
  show ?case
  proof (cases ev)
    case (Render opts)
    with Cons.prems have "built_in opts" by simp
    from render_in_step [OF Cons.prems(1) this, of dev]
    obtain i where i: "step dev inst (Render opts) = Inr i" "in_step init opts i" by blast
    from Cons.IH [OF i(2)] Cons.prems(2)
    obtain j where "run dev i evs = Inr j" "in_step init (latest opts evs) j" by auto
    with i Render show ?thesis by simp
  next
    case Toggle
    from call_in_step [OF Cons.prems(1), of toggle_action]
    obtain i where i: "step dev inst Toggle = Inr i" "in_step init cur i"
      by (auto simp add: toggle_def)
    from Cons.IH [OF i(2)] Cons.prems(2)
    obtain j where "run dev i evs = Inr j" "in_step init (latest cur evs) j" by auto
    with i Toggle show ?thesis by simp
  next
    case Reset
    from call_in_step [OF Cons.prems(1), of "reset_action (scope inst)"]
    obtain i where i: "step dev inst Reset = Inr i" "in_step init cur i"
      by (auto simp add: reset_def)
    from Cons.IH [OF i(2)] Cons.prems(2)
    obtain j where "run dev i evs = Inr j" "in_step init (latest cur evs) j" by auto
    with i Reset show ?thesis by simp
  qed
qed

lemma lifetime_in_step:
  assumes "built_in opts" and "list_all (renders built_in) evs"
  shows "\<exists>inst. lifetime dev opts evs = Inr inst
           \<and> in_step (initial_state opts) (latest opts evs) inst"
proof -
  from mount_in_step [OF assms(1), of dev]
  obtain i where i: "mount dev opts = Inr i" "in_step (initial_state opts) opts i" by blast
  from run_in_step [OF i(2) assms(2), of dev] i(1) show ?thesis
    by (simp add: lifetime_def)
qed

text \<open>
  Claim C3. Take any lifetime of the hook with the built-in transition function, in
  either mode and across mode changes, whose latest render was given an \<^verbatim>\<open>onChange\<close>
  \<open>h\<close> in its options. The lifetime returns, and a call of the \<^verbatim>\<open>toggle\<close> or of the
  \<^verbatim>\<open>reset\<close> that this render returned makes exactly one more call of \<^verbatim>\<open>onChange\<close>: of
  \<open>h\<close>, with the state that the transition function computes for the action, and with
  the action. The state is computed from the state stored at the latest render, merged
  with the \<^verbatim>\<open>on\<close> that this render reported: the closures hold the values of their
  render, not the actions queued since.
\<close>

theorem observer_called_once:
  assumes "built_in opts" and "list_all (renders built_in) evs"
    and "onChange (latest opts evs) = Some h"
  shows "\<exists>inst. lifetime dev opts evs = Inr inst
     \<and> read_on (controlledOn (latest opts evs)) (memoizedState (fiber inst)) =
         Inr (s_on (scope inst))
     \<and> toggleReducer (Some (spread_on (memoizedState (fiber inst)) (s_on (scope inst))))
           toggle_action
         = Inr (Some \<lparr>on = \<not> s_on (scope inst), rest = Map.empty\<rparr>)
     \<and> observer_calls (lifetime dev opts (evs @ [Toggle]))
         = Inr (calls inst @
                [(h, Some \<lparr>on = \<not> s_on (scope inst), rest = Map.empty\<rparr>, toggle_action)])
     \<and> toggleReducer (Some (spread_on (memoizedState (fiber inst)) (s_on (scope inst))))
           \<lparr>type = actionTypes_reset, initialState = Some (initial_state opts)\<rparr>
         = Inr (Some (initial_state opts))
     \<and> observer_calls (lifetime dev opts (evs @ [Reset]))
         = Inr (calls inst @
                [(h, Some (initial_state opts),
                  \<lparr>type = actionTypes_reset, initialState = Some (initial_state opts)\<rparr>)])"
proof -
  from lifetime_in_step [OF assms(1,2), of dev]
  obtain inst where l: "lifetime dev opts evs = Inr inst"
    and s: "in_step (initial_state opts) (latest opts evs) inst" by blast
  from s have ro: "read_on (controlledOn (latest opts evs)) (memoizedState (fiber inst)) =
         Inr (s_on (scope inst))"
    and ra: "reset_action (scope inst) =
      \<lparr>type = actionTypes_reset, initialState = Some (initial_state opts)\<rparr>"
    by (simp_all add: in_step_def reset_action_def)
  have t: "toggleReducer (Some (spread_on (memoizedState (fiber inst)) (s_on (scope inst))))
           toggle_action
         = Inr (Some \<lparr>on = \<not> s_on (scope inst), rest = Map.empty\<rparr>)"
    by (rule toggleReducer_spread_toggle)
  have r: "toggleReducer (Some (spread_on (memoizedState (fiber inst)) (s_on (scope inst))))
           (reset_action (scope inst)) = Inr (Some (initial_state opts))"
    using s by (simp add: toggleReducer_reset_action in_step_def)
  from call_in_step [OF s, of toggle_action] t assms(3) l
  have ct: "observer_calls (lifetime dev opts (evs @ [Toggle]))
         = Inr (calls inst @
                [(h, Some \<lparr>on = \<not> s_on (scope inst), rest = Map.empty\<rparr>, toggle_action)])"
    by (auto simp add: lifetime_snoc observer_calls_def toggle_def)
  from call_in_step [OF s, of "reset_action (scope inst)"] r assms(3) l
  have cr: "observer_calls (lifetime dev opts (evs @ [Reset]))
         = Inr (calls inst @
                [(h, Some (initial_state opts), reset_action (scope inst))])"
    by (auto simp add: lifetime_snoc observer_calls_def reset_def)
  from l ro t ct r cr show ?thesis
    by (simp add: ra)
qed

theorem observer_called_once_witness:
  "built_in (controlled_Toggle True)
   \<and> list_all (renders built_in) [Toggle, Render uncontrolled_Toggle]
   \<and> onChange (latest (controlled_Toggle True) [Toggle, Render uncontrolled_Toggle]) = Some ()
   \<and> observer_calls (lifetime True (controlled_Toggle True) [Toggle, Render uncontrolled_Toggle])
       = Inr [((), Some \<lparr>on = False, rest = Map.empty\<rparr>, toggle_action)]
   \<and> observer_calls (lifetime True (controlled_Toggle True)
         ([Toggle, Render uncontrolled_Toggle] @ [Toggle]))
       = Inr [((), Some \<lparr>on = False, rest = Map.empty\<rparr>, toggle_action),
              ((), Some \<lparr>on = True, rest = Map.empty\<rparr>, toggle_action)]"
proof -
  have l: "observer_calls (lifetime True (controlled_Toggle True) [Toggle, Render uncontrolled_Toggle])
       = Inr [((), Some \<lparr>on = False, rest = Map.empty\<rparr>, toggle_action)]
     \<and> reported (lifetime True (controlled_Toggle True) [Toggle, Render uncontrolled_Toggle])
       = Inr False"
    by (simp add: observer_calls_def reported_def lifetime_def mount_def useToggle_def Let_def
        useReducer_def useRef_def read_on_def controlled_Toggle_def uncontrolled_Toggle_def
        toggle_def dispatchWithOnChange_def called_def toggleReducer_spread_toggle
        useControlledSwitchWarning_def useReadOnlyWarning_def)
  from observer_called_once [where opts = "controlled_Toggle True" and dev = True
      and evs = "[Toggle, Render uncontrolled_Toggle]" and h = "()"] l
  show ?thesis
    by (auto simp add: built_in_def controlled_Toggle_def uncontrolled_Toggle_def
        observer_calls_def reported_def)
qed

lemma useToggle_scope:
  assumes "useToggle dev opts cell = Inr (fib, sc, logged)"
  shows "useReducer cell (chosen_reducer opts)
           (useRef (map_option initialState_ref cell) (initial_state opts)) =
           Inr (memoizedState fib)"
    and "read_on (controlledOn opts) (memoizedState fib) = Inr (s_on sc)"
    and "s_state sc = memoizedState fib"
    and "s_reducer sc = chosen_reducer opts"
    and "s_onChange sc = onChange opts"
    and "s_onIsControlled sc = (controlledOn opts \<noteq> None)"
  using assms
  by (auto simp add: useToggle_def Let_def chosen_reducer_def initial_state_def
      split: sum.splits)

text \<open>
  Claim C10. For any render of the hook that returns, given an \<^verbatim>\<open>onChange\<close> \<open>h\<close> in its
  options, for any reducer and any action: the state stored by this render is what
  \<^verbatim>\<open>useReducer\<close> gives for the reducer of the options, and the \<^verbatim>\<open>on\<close> reported is the
  control prop, or the stored \<^verbatim>\<open>on\<close> when there is none. When the reducer of the options
  returns on the stored state merged with the reported \<^verbatim>\<open>on\<close>, that result is what
  \<open>h\<close> receives, once, with the action, and the action is dispatched in self-owned mode
  only. In self-owned mode the merged state is the stored state; in externally-owned
  mode it is the stored state, every field of it, with \<^verbatim>\<open>on\<close> replaced by the control
  prop, whatever the stored \<^verbatim>\<open>on\<close> is.
\<close>

theorem suggestion_from_reported_on:
  assumes "useToggle dev opts cell = Inr (fib, sc, logged)"
    and "onChange opts = Some h"
    and "chosen_reducer opts (Some (spread_on (memoizedState fib) (s_on sc))) a = Inr suggested"
  shows "dispatchWithOnChange sc a (f, cs) =
           (None, if controlledOn opts = None then dispatch a f else f,
            cs @ [(h, suggested, a)])
       \<and> useReducer cell (chosen_reducer opts)
           (useRef (map_option initialState_ref cell) (initial_state opts)) =
           Inr (memoizedState fib)
       \<and> read_on (controlledOn opts) (memoizedState fib) = Inr (s_on sc)
       \<and> (case controlledOn opts of
            None \<Rightarrow> memoizedState fib = Some (spread_on (memoizedState fib) (s_on sc))
          | Some b \<Rightarrow>
              s_on sc = b \<and>
              spread_on (memoizedState fib) (s_on sc) =
                (case memoizedState fib of
                   None \<Rightarrow> \<lparr>on = b, rest = Map.empty\<rparr>
                 | Some s \<Rightarrow> s\<lparr>on := b\<rparr>))"
proof -
  note t = useToggle_scope [OF assms(1)]
  have a: "dispatchWithOnChange sc a (f, cs) =
           (None, if controlledOn opts = None then dispatch a f else f,
            cs @ [(h, suggested, a)])"
    using t(3-6) assms(2,3) by (simp add: dispatchWithOnChange_def Let_def)
  have b: "(case controlledOn opts of
            None \<Rightarrow> memoizedState fib = Some (spread_on (memoizedState fib) (s_on sc))
          | Some b \<Rightarrow>
              s_on sc = b \<and>
              spread_on (memoizedState fib) (s_on sc) =
                (case memoizedState fib of
                   None \<Rightarrow> \<lparr>on = b, rest = Map.empty\<rparr>
                 | Some s \<Rightarrow> s\<lparr>on := b\<rparr>))"
    using t(2)
    by (auto simp add: read_on_def spread_on_def split: option.splits)
  from a b t(1,2) show ?thesis by simp
qed

theorem suggestion_from_reported_on_witness:
  "useToggle False (controlled_Toggle True\<lparr>reducer := Some (\<lambda>st a. Inr st)\<rparr>)
     (Some \<lparr>initialState_ref = \<lparr>on = False, rest = Map.empty\<rparr>,
            memoizedState = Some \<lparr>on = False, rest = [''count'' \<mapsto> 1]\<rparr>, queue = [],
            switch_warning = None, readOnly_warning = None\<rparr>) =
     Inr (\<lparr>initialState_ref = \<lparr>on = False, rest = Map.empty\<rparr>,
           memoizedState = Some \<lparr>on = False, rest = [''count'' \<mapsto> 1]\<rparr>, queue = [],
           switch_warning = None, readOnly_warning = None\<rparr>,
          \<lparr>s_state = Some \<lparr>on = False, rest = [''count'' \<mapsto> 1]\<rparr>, s_on = True,
           s_onIsControlled = True, s_onChange = Some (), s_reducer = (\<lambda>st a. Inr st),
           s_initialState = \<lparr>on = False, rest = Map.empty\<rparr>\<rparr>,
          [])
   \<and> onChange (controlled_Toggle True\<lparr>reducer := Some (\<lambda>st a. Inr st)\<rparr>) = Some ()
   \<and> dispatchWithOnChange
       \<lparr>s_state = Some \<lparr>on = False, rest = [''count'' \<mapsto> 1]\<rparr>, s_on = True,
        s_onIsControlled = True, s_onChange = Some (), s_reducer = (\<lambda>st a. Inr st),
        s_initialState = \<lparr>on = False, rest = Map.empty\<rparr>\<rparr>
       toggle_action
       (\<lparr>initialState_ref = \<lparr>on = False, rest = Map.empty\<rparr>,
         memoizedState = Some \<lparr>on = False, rest = [''count'' \<mapsto> 1]\<rparr>, queue = [],
         switch_warning = None, readOnly_warning = None\<rparr>, [])
     = (None,
        \<lparr>initialState_ref = \<lparr>on = False, rest = Map.empty\<rparr>,
         memoizedState = Some \<lparr>on = False, rest = [''count'' \<mapsto> 1]\<rparr>, queue = [],
         switch_warning = None, readOnly_warning = None\<rparr>,
        [((), Some \<lparr>on = True, rest = [''count'' \<mapsto> (1::nat)]\<rparr>, toggle_action)])"
proof -
  have u: "useToggle False (controlled_Toggle True\<lparr>reducer := Some (\<lambda>st a. Inr st)\<rparr>)
     (Some \<lparr>initialState_ref = \<lparr>on = False, rest = Map.empty\<rparr>,
            memoizedState = Some \<lparr>on = False, rest = [''count'' \<mapsto> 1]\<rparr>, queue = [],
            switch_warning = None, readOnly_warning = None\<rparr>) =
     Inr (\<lparr>initialState_ref = \<lparr>on = False, rest = Map.empty\<rparr>,
           memoizedState = Some \<lparr>on = False, rest = [''count'' \<mapsto> 1]\<rparr>, queue = [],
           switch_warning = None, readOnly_warning = None\<rparr>,
          \<lparr>s_state = Some \<lparr>on = False, rest = [''count'' \<mapsto> 1]\<rparr>, s_on = True,
           s_onIsControlled = True, s_onChange = Some (), s_reducer = (\<lambda>st a. Inr st),
           s_initialState = \<lparr>on = False, rest = Map.empty\<rparr>\<rparr>,
          [])"
    by (simp add: useToggle_def Let_def useReducer_def useRef_def read_on_def
        controlled_Toggle_def)
  have h: "onChange (controlled_Toggle True\<lparr>reducer := Some (\<lambda>st a. Inr st)\<rparr>) = Some ()"
    by (simp add: controlled_Toggle_def)
  from suggestion_from_reported_on [OF u h, where a = toggle_action
      and suggested = "Some \<lparr>on = True, rest = [''count'' \<mapsto> (1::nat)]\<rparr>" and cs = "[]"
      and f = "\<lparr>initialState_ref = \<lparr>on = False, rest = Map.empty\<rparr>,
         memoizedState = Some \<lparr>on = False, rest = [''count'' \<mapsto> 1]\<rparr>, queue = [],
         switch_warning = None, readOnly_warning = None\<rparr>"] u h
  show ?thesis
    by (simp add: chosen_reducer_def controlled_Toggle_def spread_on_def)
qed

end
